theory Spec2Isabelle
  imports Main "HOL-Library.Char_ord" "HOL-Library.List_Lexorder" "HOL-Library.Word"
    "HOL-Library.AList"
begin

section \<open>String primitives of the Python source\<close>

text \<open>
  File names are Python \<open>str\<close> values; they are modelled as \<open>string\<close>. The functions
  below are the few string methods the transfer code calls. Names are compared
  character by character (\<open>List_Lexorder\<close> over \<open>Char_ord\<close>), which is Python's
  order on ASCII names.
\<close>

definition contains :: "char \<Rightarrow> string \<Rightarrow> bool" where
  \<comment> \<open>\<open>c in s\<close>\<close>
  "contains c s = (c \<in> set s)"

definition after_last :: "char \<Rightarrow> string \<Rightarrow> string" where
  \<comment> \<open>\<open>s.split(c)[-1]\<close>, also \<open>s.rsplit(c, 1)[-1]\<close>: what follows the last \<open>c\<close>, or all of
      \<open>s\<close> when \<open>c\<close> does not occur\<close>
  "after_last c s = rev (takeWhile (\<lambda>x. x \<noteq> c) (rev s))"

definition before_last :: "char \<Rightarrow> string \<Rightarrow> string" where
  \<comment> \<open>\<open>s.rsplit(c, 1)[0]\<close>: what precedes the last \<open>c\<close>, or all of \<open>s\<close> when \<open>c\<close> does not
      occur\<close>
  "before_last c s =
     (if contains c s then rev (tl (dropWhile (\<lambda>x. x \<noteq> c) (rev s))) else s)"

definition upper_char :: "char \<Rightarrow> char" where
  "upper_char c =
     (if CHR ''a'' \<le> c \<and> c \<le> CHR ''z'' then char_of (of_char c - (32::nat)) else c)"

definition upper :: "string \<Rightarrow> string" where
  \<comment> \<open>\<open>s.upper()\<close> on ASCII text\<close>
  "upper s = map upper_char s"

definition is_digit_char :: "char \<Rightarrow> bool" where
  "is_digit_char c = (CHR ''0'' \<le> c \<and> c \<le> CHR ''9'')"

definition isdigit :: "string \<Rightarrow> bool" where
  \<comment> \<open>\<open>s.isdigit()\<close>: at least one character, all of them digits\<close>
  "isdigit s = (s \<noteq> [] \<and> list_all is_digit_char s)"

definition digit_val :: "char \<Rightarrow> nat" where
  "digit_val c = of_char c - 48"

definition int_of_str :: "string \<Rightarrow> nat" where
  \<comment> \<open>\<open>int(s)\<close> for a string of decimal digits\<close>
  "int_of_str s = foldl (\<lambda>acc c. 10 * acc + digit_val c) 0 s"

fun digits_of :: "nat \<Rightarrow> nat \<Rightarrow> string" where
  \<comment> \<open>the decimal digits of \<open>n\<close>, most significant first; the first argument bounds the loop\<close>
  "digits_of 0 n = []"
| "digits_of (Suc k) n =
     (if n < 10 then [char_of (48 + n)] else digits_of k (n div 10) @ [char_of (48 + n mod 10)])"

definition str_nat :: "nat \<Rightarrow> string" where
  \<comment> \<open>\<open>str(n)\<close> for a non-negative integer\<close>
  "str_nat n = digits_of (Suc n) n"

definition zfill :: "nat \<Rightarrow> string \<Rightarrow> string" where
  \<comment> \<open>\<open>s.zfill(w)\<close> on a string without sign\<close>
  "zfill w s = replicate (w - length s) (CHR ''0'') @ s"

section \<open>Required file types (LiDAR and RGB transfer)\<close>


definition P1_REQUIRED_FILES :: "string list" where
  "P1_REQUIRED_FILES = [''NAV'', ''OBS'', ''BIN'', ''MRK'', ''JPG'']"

definition present_extensions :: "string list \<Rightarrow> string set" where
  \<comment> \<open>\<open>{f.split('.')[-1].upper() for f in files if '.' in f}\<close>\<close>
  "present_extensions files =
     set (map (\<lambda>f. upper (after_last (CHR ''.'') f)) (filter (contains (CHR ''.'')) files))"

definition missing :: "string list \<Rightarrow> string list \<Rightarrow> string list" where
  \<comment> \<open>\<open>[ext for ext in REQUIRED if ext not in present_extensions]\<close>\<close>
  "missing required files = filter (\<lambda>ext. ext \<notin> present_extensions files) required"

definition passed :: "string list \<Rightarrow> string list \<Rightarrow> bool" where
  \<comment> \<open>the \<open>else\<close> branch of \<open>if missing:\<close>\<close>
  "passed required files = (missing required files = [])"

section \<open>Corruption check of transferred TIFF files\<close>

type_synonym byte = "8 word"

text \<open>
  What the check can observe of one path: nothing there; a file of a known size that
  cannot be opened (the exception's message is kept); or a file with its bytes.
\<close>

datatype disk_file = Absent | Locked nat string | Stored "byte list"

definition tiff_magic :: "byte list \<Rightarrow> bool" where
  \<comment> \<open>\<open>(header[0:2] == b'II' and header[2:4] == b'*\x00') or
       (header[0:2] == b'MM' and header[2:4] == b'\x00*')\<close>\<close>
  "tiff_magic header =
     ((take 2 header = [0x49, 0x49] \<and> take 2 (drop 2 header) = [0x2A, 0x00]) \<or>
      (take 2 header = [0x4D, 0x4D] \<and> take 2 (drop 2 header) = [0x00, 0x2A]))"

definition check_tif :: "(byte list \<Rightarrow> string option) option \<Rightarrow> disk_file \<Rightarrow> string option" where
  \<comment> \<open>The body of the per-file \<open>try\<close> in the corruption check. The result is the
      \<open>'reason'\<close> appended to \<open>folder_corrupted\<close>, or \<open>None\<close> when nothing is appended.
      The first argument is \<open>None\<close> when \<open>PIL_AVAILABLE\<close> is false, and otherwise gives
      the message of the exception \<open>img.verify()\<close> raises, if any.\<close>
  "check_tif pil file =
     (case file of
        Absent \<Rightarrow> Some ''File not found''
      | Locked file_size msg \<Rightarrow>
          if file_size = 0 then Some ''Zero size''
          else Some (''Read error: '' @ take 30 msg)
      | Stored bytes \<Rightarrow>
          if length bytes = 0 then Some ''Zero size''
          else let header = take 4 bytes in
            if length header < 4 then Some ''Invalid header (too short)''
            else if \<not> tiff_magic header then Some ''Invalid TIFF header''
            else (case pil of
                    None \<Rightarrow> None
                  | Some verify \<Rightarrow>
                      (case verify bytes of
                         Some e \<Rightarrow> Some (''PIL verification failed: '' @ take 30 e)
                       | None \<Rightarrow> None)))"

definition is_corrupt :: "(byte list \<Rightarrow> string option) option \<Rightarrow> disk_file \<Rightarrow> bool" where
  "is_corrupt pil file = (check_tif pil file \<noteq> None)"

section \<open>Comparing the primary and the backup tree\<close>

text \<open>
  One \<open>os.walk\<close> of a directory, as the list of the files it visits: the path relative
  to the directory, and the result of \<open>os.path.getsize\<close>, \<open>None\<close> when it raises
  \<open>OSError\<close>. A walk visits every file once.
\<close>

type_synonym walk = "(string \<times> nat option) list"

definition add_file :: "(string \<times> nat) list \<Rightarrow> string \<times> nat option \<Rightarrow> (string \<times> nat) list" where
  \<comment> \<open>\<open>try: files[rel_path] = os.path.getsize(filepath)  except OSError: pass\<close>\<close>
  "add_file files entry =
     (case snd entry of Some n \<Rightarrow> AList.update (fst entry) n files | None \<Rightarrow> files)"

definition get_file_list :: "walk \<Rightarrow> (string \<times> nat) list" where
  \<comment> \<open>the dictionary \<open>files\<close>, as an association list\<close>
  "get_file_list directory = foldl add_file [] directory"

definition keys :: "(string \<times> nat) list \<Rightarrow> string set" where
  "keys files = set (map fst files)"

definition only_in_1 :: "walk \<Rightarrow> walk \<Rightarrow> string set" where
  "only_in_1 dir1 dir2 = keys (get_file_list dir1) - keys (get_file_list dir2)"

definition only_in_2 :: "walk \<Rightarrow> walk \<Rightarrow> string set" where
  "only_in_2 dir1 dir2 = keys (get_file_list dir2) - keys (get_file_list dir1)"

definition common :: "walk \<Rightarrow> walk \<Rightarrow> string set" where
  "common dir1 dir2 = keys (get_file_list dir1) \<inter> keys (get_file_list dir2)"

definition size_diff :: "walk \<Rightarrow> walk \<Rightarrow> string set" where
  \<comment> \<open>\<open>[f for f in common if files1[f] != files2[f]]\<close>\<close>
  "size_diff dir1 dir2 =
     Set.filter (\<lambda>f. map_of (get_file_list dir1) f \<noteq> map_of (get_file_list dir2) f)
       (common dir1 dir2)"

definition dirname :: "char \<Rightarrow> string \<Rightarrow> string" where
  \<comment> \<open>\<open>os.path.dirname\<close>: up to the last separator, trailing separators stripped unless
      nothing else is left\<close>
  "dirname sep p =
     (let head = rev (dropWhile (\<lambda>x. x \<noteq> sep) (rev p))
      in if head \<noteq> [] \<and> head \<noteq> replicate (length head) sep
         then rev (dropWhile (\<lambda>x. x = sep) (rev head)) else head)"

definition top_folder :: "char \<Rightarrow> string \<Rightarrow> string" where
  \<comment> \<open>\<open>os.path.dirname(file_path).split(os.sep)[0] if os.sep in file_path else file_path\<close>\<close>
  "top_folder sep file_path =
     (if contains sep file_path then takeWhile (\<lambda>x. x \<noteq> sep) (dirname sep file_path)
      else file_path)"

definition affected_folders :: "char \<Rightarrow> walk \<Rightarrow> walk \<Rightarrow> (string \<times> string) set" where
  "affected_folders sep dir1 dir2 =
     (\<lambda>p. (top_folder sep p, ''Missing in backup'')) ` only_in_1 dir1 dir2 \<union>
     (\<lambda>p. (top_folder sep p, ''Extra in backup'')) ` only_in_2 dir1 dir2 \<union>
     (\<lambda>p. (top_folder sep p, ''Size mismatch'')) ` size_diff dir1 dir2"

definition is_identical :: "walk \<Rightarrow> walk \<Rightarrow> bool" where
  \<comment> \<open>\<open>not (only_in_1 or only_in_2 or size_diff)\<close>\<close>
  "is_identical dir1 dir2 =
     (\<not> (only_in_1 dir1 dir2 \<noteq> {} \<or> only_in_2 dir1 dir2 \<noteq> {} \<or> size_diff dir1 dir2 \<noteq> {}))"

definition compare_directories :: "char \<Rightarrow> walk \<Rightarrow> walk \<Rightarrow> bool \<times> (string \<times> string) set" where
  "compare_directories sep dir1 dir2 = (is_identical dir1 dir2, affected_folders sep dir1 dir2)"

definition readable :: "walk \<Rightarrow> walk" where
  \<comment> \<open>the files of a walk whose size query succeeds\<close>
  "readable directory = filter (\<lambda>(rel_path, sz). sz \<noteq> None) directory"

section \<open>Packing the multispectral files into numbered folders\<close>

record file_info =
  filename :: string
  full_path :: string
  camera :: string
  source_set :: string
  source_folder :: string

definition file_entry :: "string \<Rightarrow> string \<Rightarrow> string \<Rightarrow> string \<Rightarrow> string \<Rightarrow> file_info" where
  \<comment> \<open>the dictionary appended to \<open>files_by_plot[plot_id]\<close> for the file \<open>f\<close> of the
      folder \<open>num_folder\<close> of \<open>set_folder\<close> on the card mounted at \<open>source\<close>\<close>
  "file_entry cam source set_folder num_folder f =
     \<lparr>filename = f, full_path = source @ ''/'' @ set_folder @ ''/'' @ num_folder @ ''/'' @ f,
      camera = cam, source_set = set_folder, source_folder = num_folder\<rparr>"

definition red_file :: "string \<Rightarrow> file_info" where
  \<comment> \<open>a file of folder \<open>000\<close> of \<open>0000SET\<close> on the RED card, for the examples\<close>
  "red_file f = file_entry ''RED'' ''/red'' ''0000SET'' ''000'' f"

definition MAX_FILES_PER_FOLDER :: nat where
  "MAX_FILES_PER_FOLDER = 2200"

definition name_without_ext :: "string \<Rightarrow> string" where
  \<comment> \<open>\<open>filename.rsplit('.', 1)[0]\<close>\<close>
  "name_without_ext fname = before_last (CHR ''.'') fname"

definition base_name :: "string \<Rightarrow> string" where
  \<comment> \<open>\<open>parts[0]\<close> of \<open>name_without_ext.rsplit('_', 1)\<close> when the name has an underscore,
      the whole name otherwise\<close>
  "base_name fname =
     (let n = name_without_ext fname
      in if contains (CHR ''_'') n then before_last (CHR ''_'') n else n)"

definition series_num :: "string \<Rightarrow> nat option" where
  \<comment> \<open>\<open>int(parts[1]) if parts[1].isdigit() else None\<close>, and \<open>None\<close> without underscore.
      On ASCII digits \<open>int\<close> does not raise, so the \<open>except\<close> branch is not reached.\<close>
  "series_num fname =
     (let n = name_without_ext fname
      in if contains (CHR ''_'') n
         then (let p1 = after_last (CHR ''_'') n
               in if isdigit p1 then Some (int_of_str p1) else None)
         else None)"


definition in_series :: "string \<Rightarrow> string \<Rightarrow> bool" where
  \<comment> \<open>\<open>'_' in check_name and check_name.rsplit('_', 1)[0] == base_name\<close>\<close>
  "in_series base check_file =
     (let check_name = name_without_ext check_file
      in contains (CHR ''_'') check_name \<and> before_last (CHR ''_'') check_name = base)"

definition series_count :: "file_info list \<Rightarrow> nat \<Rightarrow> nat" where
  \<comment> \<open>The look-ahead \<open>for j in range(i, min(i + 11, len(all_tif_files)))\<close>, which counts
      until the first file of another base name; 1 for a file without series number.\<close>
  "series_count all_tif_files i =
     (let fname = filename (all_tif_files ! i)
      in if series_num fname \<noteq> None
         then length (takeWhile (\<lambda>f. in_series (base_name fname) (filename f))
                        (take 11 (drop i all_tif_files)))
         else 1)"

text \<open>
  The destination is a map from paths below \<open>base_target_dir\<close> (the list of the path's
  components) to the source file whose bytes the path holds. \<open>copied_to\<close> is not a
  variable of the source: it records, for every file the copy loop reaches, the folder
  of the \<open>dst\<close> the loop computes for it, and \<open>errors\<close> the names the \<open>except\<close> branch
  logs.
\<close>

type_synonym path = "string list"

record pack_state =
  current_folder_num :: nat
  current_folder_count :: nat
  summary :: "(string \<times> nat) list"
  total_copied :: nat
  total_skipped :: nat
  disk :: "path \<Rightarrow> string option"
  errors :: "string list"
  copied_to :: "(string \<times> string) list"

definition copy_file :: "(string \<Rightarrow> path \<Rightarrow> bool) \<Rightarrow> path \<Rightarrow> string \<Rightarrow> pack_state \<Rightarrow> file_info \<Rightarrow> pack_state" where
  \<comment> \<open>One round of the copy loop. \<open>raises src dst\<close> says that \<open>shutil.copy2(src, dst)\<close>
      raises; the counter of the folder is then not incremented.\<close>
  "copy_file raises target_path target_folder st file_to_copy =
     (let src = full_path file_to_copy;
          dst = target_path @ [filename file_to_copy];
          st = st\<lparr>copied_to := copied_to st @ [(filename file_to_copy, target_folder)]\<rparr>
      in if disk st dst \<noteq> None
         then st\<lparr>total_skipped := total_skipped st + 1,
                 current_folder_count := current_folder_count st + 1\<rparr>
         else if raises src dst
         then st\<lparr>errors := errors st @ [filename file_to_copy]\<rparr>
         else st\<lparr>disk := (disk st)(dst \<mapsto> src),
                 total_copied := total_copied st + 1,
                 current_folder_count := current_folder_count st + 1\<rparr>)"

definition next_folder :: "nat \<Rightarrow> nat \<Rightarrow> pack_state \<Rightarrow> pack_state" where
  \<comment> \<open>\<open>if current_folder_count > 0 and (current_folder_count + series_count) >
      MAX_FILES_PER_FOLDER\<close>: the folder goes to the summary and the next one starts\<close>
  "next_folder cap n st =
     (if current_folder_count st > 0 \<and> current_folder_count st + n > cap
      then st\<lparr>summary := summary st @
                  [(zfill 3 (str_nat (current_folder_num st)), current_folder_count st)],
              current_folder_num := current_folder_num st + 1,
              current_folder_count := 0\<rparr>
      else st)"

definition pack_step ::
  "(string \<Rightarrow> path \<Rightarrow> bool) \<Rightarrow> nat \<Rightarrow> path \<Rightarrow> file_info list \<Rightarrow> nat \<Rightarrow> pack_state \<Rightarrow> pack_state" where
  \<comment> \<open>The body of \<open>while i < len(all_tif_files)\<close> up to \<open>i += series_count\<close>.
      \<open>plot_dir\<close> is the path of \<open>level0_raw\<close> for the plot. \<open>os.makedirs\<close> is taken to
      succeed; the map of the destination keeps files only.\<close>
  "pack_step raises cap plot_dir all_tif_files i st =
     (let n = series_count all_tif_files i;
          st = next_folder cap n st;
          target_folder = zfill 3 (str_nat (current_folder_num st));
          target_path = plot_dir @ [target_folder]
      in foldl (copy_file raises target_path target_folder) st
           (take n (drop i all_tif_files)))"

function pack_loop ::
  "(string \<Rightarrow> path \<Rightarrow> bool) \<Rightarrow> nat \<Rightarrow> path \<Rightarrow> file_info list \<Rightarrow> nat \<Rightarrow> pack_state \<Rightarrow> pack_state" where
  "pack_loop raises cap plot_dir all_tif_files i st =
     (if i < length all_tif_files
      then pack_loop raises cap plot_dir all_tif_files (i + series_count all_tif_files i)
             (pack_step raises cap plot_dir all_tif_files i st)
      else st)"
  by pat_completeness auto
termination
proof (relation "measure (\<lambda>(raises, cap, plot_dir, all_tif_files, i, st). length all_tif_files - i)")
  show "wf (measure (\<lambda>(raises, cap, plot_dir, all_tif_files, i, st). length all_tif_files - i))"
    by simp
next
  fix raises :: "string \<Rightarrow> path \<Rightarrow> bool" and cap :: nat and plot_dir :: path
    and all_tif_files :: "file_info list" and i :: nat and st :: pack_state
  assume less: "i < length all_tif_files"
  let ?f = "filename (all_tif_files ! i)"
  have first: "take 11 (drop i all_tif_files) = all_tif_files ! i # take 10 (drop (Suc i) all_tif_files)"
    using less by (simp add: Cons_nth_drop_Suc [symmetric])
  have "series_num ?f \<noteq> None \<Longrightarrow> in_series (base_name ?f) ?f"
    by (auto simp: series_num_def in_series_def base_name_def Let_def split: if_splits)
  then have "0 < series_count all_tif_files i"
    by (auto simp: series_count_def Let_def first)
  then show "((raises, cap, plot_dir, all_tif_files, i + series_count all_tif_files i,
               pack_step raises cap plot_dir all_tif_files i st),
              (raises, cap, plot_dir, all_tif_files, i, st))
             \<in> measure (\<lambda>(raises, cap, plot_dir, all_tif_files, i, st). length all_tif_files - i)"
    using less by simp
qed

definition init_state :: "(path \<Rightarrow> string option) \<Rightarrow> pack_state" where
  "init_state d =
     \<lparr>current_folder_num = 0, current_folder_count = 0, summary = [],
      total_copied = 0, total_skipped = 0, disk = d, errors = [], copied_to = []\<rparr>"

definition final_folder :: "pack_state \<Rightarrow> pack_state" where
  \<comment> \<open>\<open>if current_folder_count > 0: summary.append(...)\<close> after the loop\<close>
  "final_folder st =
     (if current_folder_count st > 0
      then st\<lparr>summary := summary st @
                  [(zfill 3 (str_nat (current_folder_num st)), current_folder_count st)]\<rparr>
      else st)"

definition pack ::
  "(string \<Rightarrow> path \<Rightarrow> bool) \<Rightarrow> nat \<Rightarrow> path \<Rightarrow> file_info list \<Rightarrow> (path \<Rightarrow> string option) \<Rightarrow> pack_state" where
  "pack raises cap plot_dir all_tif_files d =
     final_folder (pack_loop raises cap plot_dir all_tif_files 0 (init_state d))"

definition files_in_summary :: "pack_state \<Rightarrow> nat" where
  \<comment> \<open>the sum of \<open>'Files'\<close> over the folders of the summary\<close>
  "files_in_summary st = sum_list (map snd (summary st))"

definition level0_raw :: "string \<Rightarrow> string \<Rightarrow> path" where
  \<comment> \<open>\<open>os.path.join(base_target_dir, plot_id, today_str, "imagery", "multispec",
      "level0_raw", ...)\<close>, below \<open>base_target_dir\<close>\<close>
  "level0_raw plot_id today_str = [plot_id, today_str, ''imagery'', ''multispec'', ''level0_raw'']"

subsection \<open>Example inputs\<close>





subsection \<open>The transfer of all plots\<close>

datatype error = NameError

definition lookup :: "(string \<times> file_info list) list \<Rightarrow> string \<Rightarrow> file_info list" where
  \<comment> \<open>\<open>files_by_plot[plot_id]\<close> for a key of the dictionary\<close>
  "lookup files_by_plot plot_id = (case map_of files_by_plot plot_id of Some fs \<Rightarrow> fs | None \<Rightarrow> [])"

definition plot_loop :: "(string \<times> file_info list) list \<Rightarrow> (string \<times> file_info list) option" where
  \<comment> \<open>\<open>for plot_id in sorted(files_by_plot.keys())\<close>: the body sorts the plot's files and
      prints; the value is what \<open>plot_id\<close> and \<open>all_tif_files\<close> hold after the loop,
      \<open>None\<close> when they were never bound.\<close>
  "plot_loop files_by_plot =
     foldl (\<lambda>vars plot_id. Some (plot_id, sort_key filename (lookup files_by_plot plot_id)))
       None (sort (map fst files_by_plot))"

record plot_summary =
  folders :: "(string \<times> nat) list"
  plot_copied :: nat
  plot_skipped :: nat

definition transfer_plots ::
  "(string \<Rightarrow> path \<Rightarrow> bool) \<Rightarrow> string \<Rightarrow> (string \<times> file_info list) list \<Rightarrow> (path \<Rightarrow> string option)
     \<Rightarrow> error + ((string \<times> plot_summary) list \<times> pack_state)" where
  \<comment> \<open>From \<open>for plot_id in sorted(files_by_plot.keys())\<close> to
      \<open>grand_total_skipped += total_skipped\<close>. The packing loop stands after the
      \<open>for\<close> loop, at the indentation of the function body, so it runs once, on the
      variables the \<open>for\<close> loop leaves. The first component of the result is
      \<open>all_summaries\<close>.\<close>
  "transfer_plots raises today_str files_by_plot d =
     (case plot_loop files_by_plot of
        None \<Rightarrow> Inl NameError
      | Some (plot_id, all_tif_files) \<Rightarrow>
          let st = pack raises MAX_FILES_PER_FOLDER (level0_raw plot_id today_str) all_tif_files d
          in Inr ([(plot_id, \<lparr>folders = summary st, plot_copied = total_copied st,
                               plot_skipped = total_skipped st\<rparr>)], st))"

section \<open>Transfer of the LiDAR folders\<close>













subsection \<open>Example inputs\<close>


definition two_plots :: "(string \<times> file_info list) list" where
  \<comment> \<open>\<open>files_by_plot\<close> when \<open>0000SET\<close> is assigned to \<open>NTAFIN0001\<close> and \<open>0001SET\<close> to
      \<open>NTAFIN0002\<close>, with one file each\<close>
  "two_plots =
     [(''NTAFIN0001'', [file_entry ''RED'' ''/red'' ''0000SET'' ''000'' ''IMG_0001_1.tif'']),
      (''NTAFIN0002'', [file_entry ''RED'' ''/red'' ''0001SET'' ''000'' ''IMG_0002_1.tif''])]"

section \<open>Classification of a source folder\<close>

lemma passed_iff_subset: "passed R files \<longleftrightarrow> set R \<subseteq> present_extensions files"
  by (auto simp: passed_def missing_def filter_empty_conv)

lemma present_extensions_append:
  "present_extensions (files @ extra) = present_extensions files \<union> present_extensions extra"
  by (auto simp: present_extensions_def)

text \<open>
  C6. A folder passes exactly when every required extension is among the uppercased
  extensions (the text after the last dot) of its files that have a dot; further files,
  whatever their extension, keep a passing folder passing; and the reported missing
  extensions are the required ones that are not present.
\<close>

theorem classification_passes_iff_required_present:
  "(passed R files \<longleftrightarrow> set R \<subseteq> present_extensions files) \<and>
   present_extensions files =
     {upper (after_last (CHR ''.'') f) | f. f \<in> set files \<and> CHR ''.'' \<in> set f} \<and>
   (passed R files \<longrightarrow> passed R (files @ extra)) \<and>
   set (missing R files) = set R - present_extensions files"
proof (intro conjI)
  show "passed R files \<longleftrightarrow> set R \<subseteq> present_extensions files"
    by (rule passed_iff_subset)
  show "present_extensions files =
     {upper (after_last (CHR ''.'') f) | f. f \<in> set files \<and> CHR ''.'' \<in> set f}"
    by (auto simp: present_extensions_def contains_def)
  show "passed R files \<longrightarrow> passed R (files @ extra)"
    by (auto simp: passed_iff_subset present_extensions_append)
  show "set (missing R files) = set R - present_extensions files"
    by (auto simp: missing_def)
qed

theorem classification_passes_iff_required_present_witness:
  "passed [''JPG'', ''MRK''] [''a.MRK'', ''b.jpg'', ''notes''] \<and>
   passed [''JPG'', ''MRK''] ([''a.MRK'', ''b.jpg'', ''notes''] @ [''c.TXT'']) \<and>
   missing [''JPG'', ''MRK''] [''a.MRK'', ''b.jpg'', ''notes''] = [] \<and>
   set (missing [''JPG'', ''MRK''] [''a.MRK'', ''notes.JPG.txt'', ''JPG'']) = {''JPG''}"
proof -
  have p: "passed [''JPG'', ''MRK''] [''a.MRK'', ''b.jpg'', ''notes'']"
    by code_simp
  have m: "set [''JPG'', ''MRK''] - present_extensions [''a.MRK'', ''notes.JPG.txt'', ''JPG''] = {''JPG''}"
    by code_simp
  from p have "missing [''JPG'', ''MRK''] [''a.MRK'', ''b.jpg'', ''notes''] = []"
    by (simp add: passed_def)
  with p m
    classification_passes_iff_required_present
      [of "[''JPG'', ''MRK'']" "[''a.MRK'', ''b.jpg'', ''notes'']" "[''c.TXT'']"]
    classification_passes_iff_required_present
      [of "[''JPG'', ''MRK'']" "[''a.MRK'', ''notes.JPG.txt'', ''JPG'']" "[]"]
  show ?thesis by simp
qed

section \<open>Corruption check\<close>

lemma take4_cases:
  assumes "4 \<le> length (bytes :: byte list)"
  obtains a b c d rest where "bytes = a # b # c # d # rest"
proof -
  from assms obtain a r1 where 1: "bytes = a # r1" by (cases bytes) auto
  with assms obtain b r2 where 2: "r1 = b # r2" by (cases r1) auto
  with 1 assms obtain c r3 where 3: "r2 = c # r3" by (cases r2) auto
  with 1 2 assms obtain d r4 where 4: "r3 = d # r4" by (cases r3) auto
  from 1 2 3 4 that show thesis by blast
qed

text \<open>
  C7. The checks of a TIFF file run in the order existence, size, header length, magic
  number, and the first that fails gives the reason, whatever the image library would
  say: a missing file is "File not found", an empty file "Zero size", a file of one to
  three bytes "Invalid header (too short)", and a file of four bytes or more that starts
  with neither 49 49 2A 00 nor 4D 4D 00 2A is corrupt with "Invalid TIFF header", as is
  a file that starts with four zero bytes.
\<close>

theorem tiff_checks_in_order:
  "check_tif pil Absent = Some ''File not found'' \<and>
   check_tif pil (Stored []) = Some ''Zero size'' \<and>
   (bytes \<noteq> [] \<and> length bytes < 4 \<longrightarrow>
      check_tif pil (Stored bytes) = Some ''Invalid header (too short)'') \<and>
   (4 \<le> length bytes \<and> take 4 bytes \<noteq> [0x49, 0x49, 0x2A, 0x00]
      \<and> take 4 bytes \<noteq> [0x4D, 0x4D, 0x00, 0x2A] \<longrightarrow>
      check_tif pil (Stored bytes) = Some ''Invalid TIFF header''
      \<and> is_corrupt pil (Stored bytes)) \<and>
   check_tif pil (Stored (0 # 0 # 0 # 0 # rest)) = Some ''Invalid TIFF header''"
proof (intro conjI impI)
  show "check_tif pil Absent = Some ''File not found''"
    by (simp add: check_tif_def)
  show "check_tif pil (Stored []) = Some ''Zero size''"
    by (simp add: check_tif_def)
  show "check_tif pil (Stored bytes) = Some ''Invalid header (too short)''"
    if "bytes \<noteq> [] \<and> length bytes < 4"
    using that by (simp add: check_tif_def Let_def)
  show "check_tif pil (Stored (0 # 0 # 0 # 0 # rest)) = Some ''Invalid TIFF header''"
    by (simp add: check_tif_def tiff_magic_def)
  assume h: "4 \<le> length bytes \<and> take 4 bytes \<noteq> [0x49, 0x49, 0x2A, 0x00]
      \<and> take 4 bytes \<noteq> [0x4D, 0x4D, 0x00, 0x2A]"
  then obtain a b c d r where bytes: "bytes = a # b # c # d # r"
    by (auto elim: take4_cases)
  with h show r: "check_tif pil (Stored bytes) = Some ''Invalid TIFF header''"
    by (auto simp: check_tif_def tiff_magic_def)
  then show "is_corrupt pil (Stored bytes)"
    by (simp add: is_corrupt_def)
qed

theorem tiff_checks_in_order_witness:
  "check_tif None (Stored [0x49]) = Some ''Invalid header (too short)'' \<and>
   check_tif (Some (\<lambda>b. None)) (Stored [0x4D, 0x4D, 0x2A, 0x00, 0x08]) = Some ''Invalid TIFF header'' \<and>
   is_corrupt (Some (\<lambda>b. None)) (Stored [0x4D, 0x4D, 0x2A, 0x00, 0x08])"
  using tiff_checks_in_order [of None "[0x49]" "[]"]
    tiff_checks_in_order [of "Some (\<lambda>b. None)" "[0x4D, 0x4D, 0x2A, 0x00, 0x08]" "[]"]
  by simp

section \<open>Tree comparison\<close>

lemma keys_add_file:
  "keys (add_file files e) = keys files \<union> (case snd e of Some n \<Rightarrow> {fst e} | None \<Rightarrow> {})"
  by (auto simp: add_file_def keys_def dom_update split: option.splits)

lemma keys_foldl_add_file:
  "keys (foldl add_file acc w) = keys acc \<union> {p. \<exists>n. (p, Some n) \<in> set w}"
proof (induction w arbitrary: acc)
  case Nil
  then show ?case by simp
next
  case (Cons e w)
  show ?case
    by (cases e) (auto simp: Cons.IH keys_add_file split: option.splits)
qed

lemma keys_get_file_list: "keys (get_file_list w) = {p. \<exists>n. (p, Some n) \<in> set w}"
  using keys_foldl_add_file [of "[]" w] by (simp add: get_file_list_def keys_def)

lemma foldl_add_file_readable: "foldl add_file acc (readable w) = foldl add_file acc w"
  by (induction w arbitrary: acc) (auto simp: readable_def add_file_def split: option.splits)

lemma get_file_list_readable: "get_file_list (readable w) = get_file_list w"
  by (simp add: get_file_list_def foldl_add_file_readable)

lemma same_files_identical:
  assumes "get_file_list A = get_file_list B"
  shows "only_in_1 A B = {}" "only_in_2 A B = {}" "size_diff A B = {}" "is_identical A B"
  using assms by (auto simp: only_in_1_def only_in_2_def size_diff_def is_identical_def)

text \<open>
  C9. Comparing a tree with itself finds no file on one side only and no size
  mismatch, so the trees are reported identical and no folder is affected; and two trees
  are reported identical exactly when the three sets of differences are empty.
\<close>

theorem compare_with_itself_identical:
  "only_in_1 A A = {} \<and> only_in_2 A A = {} \<and> size_diff A A = {} \<and>
   compare_directories sep A A = (True, {}) \<and>
   (fst (compare_directories sep A B) \<longleftrightarrow>
      only_in_1 A B = {} \<and> only_in_2 A B = {} \<and> size_diff A B = {})"
  by (simp add: same_files_identical compare_directories_def affected_folders_def)
     (auto simp: is_identical_def)

theorem compare_with_itself_identical_witness:
  "compare_directories (CHR ''/'') [(''site/file.jpg'', Some 100), (''site/locked.jpg'', None)]
     [(''site/file.jpg'', Some 100), (''site/locked.jpg'', None)] = (True, {}) \<and>
   \<not> fst (compare_directories (CHR ''/'') [(''site/file.jpg'', Some 100)] [(''site/file.jpg'', Some 90)])"
proof -
  have "size_diff [(''site/file.jpg'', Some 100)] [(''site/file.jpg'', Some 90)] \<noteq> {}"
    by code_simp
  with compare_with_itself_identical
         [of "[(''site/file.jpg'', Some 100), (''site/locked.jpg'', None)]" "CHR ''/''"]
       compare_with_itself_identical
         [of "[(''site/file.jpg'', Some 100)]" "CHR ''/''" "[(''site/file.jpg'', Some 90)]"]
  show ?thesis by simp
qed

lemma unreadable_not_key:
  assumes "(p, None) \<in> set A" "distinct (map fst A)"
  shows "p \<notin> keys (get_file_list A)"
proof -
  have "\<And>n. (p, Some n) \<notin> set A"
    using assms by (metis eq_key_imp_eq_value option.distinct(1))
  then show ?thesis by (simp add: keys_get_file_list)
qed

text \<open>
  C10. A file whose size query raises is left out of the map of its tree. So it is
  never a size mismatch; when the other tree can read the file of the same path, the
  file is reported as present in the other tree only; and two trees whose readable files
  are the same are reported identical.
\<close>

theorem unreadable_file_is_omitted:
  "((p, None) \<in> set A \<and> distinct (map fst A) \<longrightarrow>
      p \<notin> keys (get_file_list A) \<and> p \<notin> size_diff A B \<and> p \<notin> size_diff B A \<and>
      (\<forall>n. (p, Some n) \<in> set B \<longrightarrow> p \<in> only_in_2 A B \<and> p \<in> only_in_1 B A)) \<and>
   (readable A = readable B \<longrightarrow> is_identical A B \<and> affected_folders sep A B = {})"
proof (intro conjI impI allI)
  assume "readable A = readable B"
  then have eq: "get_file_list A = get_file_list B"
    by (metis get_file_list_readable)
  then show "is_identical A B"
    by (rule same_files_identical)
  from eq show "affected_folders sep A B = {}"
    by (simp add: affected_folders_def same_files_identical)
next
  assume h: "(p, None) \<in> set A \<and> distinct (map fst A)"
  then show nk: "p \<notin> keys (get_file_list A)"
    by (simp add: unreadable_not_key)
  then show "p \<notin> size_diff A B" "p \<notin> size_diff B A"
    by (auto simp: size_diff_def common_def)
  fix n assume "(p, Some n) \<in> set B"
  then have "p \<in> keys (get_file_list B)"
    by (auto simp: keys_get_file_list)
  with nk show "p \<in> only_in_2 A B" "p \<in> only_in_1 B A"
    by (auto simp: only_in_2_def only_in_1_def)
qed

theorem unreadable_file_is_omitted_witness:
  "''site/b.jpg'' \<notin> size_diff [(''site/a.jpg'', Some 100), (''site/b.jpg'', None)]
      [(''site/a.jpg'', Some 100), (''site/b.jpg'', Some 5)] \<and>
   ''site/b.jpg'' \<in> only_in_2 [(''site/a.jpg'', Some 100), (''site/b.jpg'', None)]
      [(''site/a.jpg'', Some 100), (''site/b.jpg'', Some 5)] \<and>
   is_identical [(''site/a.jpg'', Some 100), (''site/b.jpg'', None)]
      [(''site/c.jpg'', None), (''site/a.jpg'', Some 100)]"
proof -
  have r: "readable [(''site/a.jpg'', Some 100), (''site/b.jpg'', None)]
         = readable [(''site/c.jpg'', None), (''site/a.jpg'', Some (100::nat))]"
    by (simp add: readable_def)
  show ?thesis
    using r
      unreadable_file_is_omitted [of "''site/b.jpg''"
        "[(''site/a.jpg'', Some 100), (''site/b.jpg'', None)]"
        "[(''site/a.jpg'', Some 100), (''site/b.jpg'', Some 5)]" "CHR ''/''"]
      unreadable_file_is_omitted [of "''site/b.jpg''"
        "[(''site/a.jpg'', Some 100), (''site/b.jpg'', None)]"
        "[(''site/c.jpg'', None), (''site/a.jpg'', Some (100::nat))]" "CHR ''/''"]
    by simp
qed

section \<open>The packing loop\<close>

declare pack_loop.simps [simp del]

lemma in_series_self:
  "series_num fname \<noteq> None \<Longrightarrow> in_series (base_name fname) fname"
  by (auto simp: series_num_def in_series_def base_name_def Let_def split: if_splits)

lemma series_count_pos:
  assumes "i < length fs"
  shows "0 < series_count fs i"
proof -
  have "take 11 (drop i fs) = fs ! i # take 10 (drop (Suc i) fs)"
    using assms by (simp add: Cons_nth_drop_Suc [symmetric])
  then show ?thesis
    by (auto simp: series_count_def Let_def in_series_self)
qed

lemma series_count_le:
  assumes "i < length fs"
  shows "i + series_count fs i \<le> length fs"
proof (cases "series_num (filename (fs ! i))")
  case None
  with assms show ?thesis by (simp add: series_count_def)
next
  case (Some n)
  have "length (takeWhile (\<lambda>f. in_series (base_name (filename (fs ! i))) (filename f))
           (take 11 (drop i fs))) \<le> length (take 11 (drop i fs))"
    by (rule length_takeWhile_le)
  with Some assms show ?thesis by (simp add: series_count_def) arith
qed

lemma series_count_le_11: "series_count fs i \<le> 11"
proof -
  have "length (takeWhile (\<lambda>f. in_series (base_name (filename (fs ! i))) (filename f))
           (take 11 (drop i fs))) \<le> length (take 11 (drop i fs))"
    by (rule length_takeWhile_le)
  then show ?thesis by (simp add: series_count_def Let_def)
qed

lemma copy_file_keeps [simp]:
  "current_folder_num (copy_file r tp tf st f) = current_folder_num st"
  "summary (copy_file r tp tf st f) = summary st"
  "copied_to (copy_file r tp tf st f) = copied_to st @ [(filename f, tf)]"
  by (simp_all add: copy_file_def Let_def)

lemma copy_file_count:
  "current_folder_count (copy_file r tp tf st f) + length (errors (copy_file r tp tf st f))
     = Suc (current_folder_count st + length (errors st))"
  by (simp add: copy_file_def Let_def)

lemma copy_file_totals:
  "total_copied (copy_file r tp tf st f) + total_skipped (copy_file r tp tf st f)
     + length (errors (copy_file r tp tf st f))
     = Suc (total_copied st + total_skipped st + length (errors st))"
  by (simp add: copy_file_def Let_def)

lemma copy_files_keeps [simp]:
  "current_folder_num (foldl (copy_file r tp tf) st fs) = current_folder_num st"
  "summary (foldl (copy_file r tp tf) st fs) = summary st"
  "copied_to (foldl (copy_file r tp tf) st fs) = copied_to st @ map (\<lambda>f. (filename f, tf)) fs"
  by (induction fs arbitrary: st) simp_all

lemma copy_files_count:
  "current_folder_count (foldl (copy_file r tp tf) st fs)
     + length (errors (foldl (copy_file r tp tf) st fs))
     = current_folder_count st + length (errors st) + length fs"
proof (induction fs arbitrary: st)
  case Nil
  show ?case by simp
next
  case (Cons f fs)
  show ?case
    using Cons.IH [of "copy_file r tp tf st f"] copy_file_count [of r tp tf st f] by simp
qed

lemma copy_files_totals:
  "total_copied (foldl (copy_file r tp tf) st fs) + total_skipped (foldl (copy_file r tp tf) st fs)
     + length (errors (foldl (copy_file r tp tf) st fs))
     = total_copied st + total_skipped st + length (errors st) + length fs"
proof (induction fs arbitrary: st)
  case Nil
  show ?case by simp
next
  case (Cons f fs)
  show ?case
    using Cons.IH [of "copy_file r tp tf st f"] copy_file_totals [of r tp tf st f] by simp
qed

lemma next_folder_keeps [simp]:
  "copied_to (next_folder cap n st) = copied_to st"
  "errors (next_folder cap n st) = errors st"
  "total_copied (next_folder cap n st) = total_copied st"
  "total_skipped (next_folder cap n st) = total_skipped st"
  "disk (next_folder cap n st) = disk st"
  by (simp_all add: next_folder_def)

lemma next_folder_files:
  "files_in_summary (next_folder cap n st) + current_folder_count (next_folder cap n st)
     = files_in_summary st + current_folder_count st"
  by (simp add: next_folder_def files_in_summary_def)

lemma length_series:
  "i < length fs \<Longrightarrow> length (take (series_count fs i) (drop i fs)) = series_count fs i"
  using series_count_le [of i fs] by simp

lemma pack_step_files:
  assumes "i < length fs"
  shows "files_in_summary (pack_step r cap dir fs i st)
           + current_folder_count (pack_step r cap dir fs i st)
           + length (errors (pack_step r cap dir fs i st))
         = files_in_summary st + current_folder_count st + length (errors st)
           + series_count fs i"
proof -
  let ?n = "series_count fs i"
  let ?st = "next_folder cap ?n st"
  let ?tf = "zfill 3 (str_nat (current_folder_num ?st))"
  have step: "pack_step r cap dir fs i st
      = foldl (copy_file r (dir @ [?tf]) ?tf) ?st (take ?n (drop i fs))"
    by (simp add: pack_step_def Let_def)
  have "files_in_summary (pack_step r cap dir fs i st) = files_in_summary ?st"
    by (simp add: step files_in_summary_def)
  moreover have "current_folder_count (pack_step r cap dir fs i st)
      + length (errors (pack_step r cap dir fs i st))
      = current_folder_count ?st + length (errors ?st) + ?n"
    using copy_files_count [of r "dir @ [?tf]" ?tf ?st "take ?n (drop i fs)"]
      series_count_le [OF assms]
    by (simp add: step min_absorb1)
  ultimately show ?thesis
    using next_folder_files [of cap ?n st] by simp
qed

lemma pack_step_totals:
  assumes "i < length fs"
  shows "total_copied (pack_step r cap dir fs i st) + total_skipped (pack_step r cap dir fs i st)
           + length (errors (pack_step r cap dir fs i st))
         = total_copied st + total_skipped st + length (errors st) + series_count fs i"
proof -
  let ?n = "series_count fs i"
  let ?st = "next_folder cap ?n st"
  let ?tf = "zfill 3 (str_nat (current_folder_num ?st))"
  have step: "pack_step r cap dir fs i st
      = foldl (copy_file r (dir @ [?tf]) ?tf) ?st (take ?n (drop i fs))"
    by (simp add: pack_step_def Let_def)
  show ?thesis
    using copy_files_totals [of r "dir @ [?tf]" ?tf ?st "take ?n (drop i fs)"]
      series_count_le [OF assms]
    by (simp add: step min_absorb1)
qed

lemma pack_step_names:
  "map fst (copied_to (pack_step r cap dir fs i st))
     = map fst (copied_to st) @ map filename (take (series_count fs i) (drop i fs))"
  by (simp add: pack_step_def Let_def comp_def)

lemma pack_loop_files:
  "files_in_summary (pack_loop r cap dir fs i st)
     + current_folder_count (pack_loop r cap dir fs i st)
     + length (errors (pack_loop r cap dir fs i st))
   = files_in_summary st + current_folder_count st + length (errors st) + (length fs - i)"
proof (induction r cap dir fs i st rule: pack_loop.induct)
  case (1 r cap dir fs i st)
  show ?case
  proof (cases "i < length fs")
    case True
    then show ?thesis
      using "1.IH" pack_step_files [of i fs r cap dir st] series_count_le [of i fs]
      by (subst (1 2 3) pack_loop.simps) simp
  next
    case False
    then show ?thesis by (subst (1 2 3) pack_loop.simps) simp
  qed
qed

lemma pack_loop_totals:
  "total_copied (pack_loop r cap dir fs i st) + total_skipped (pack_loop r cap dir fs i st)
     + length (errors (pack_loop r cap dir fs i st))
   = total_copied st + total_skipped st + length (errors st) + (length fs - i)"
proof (induction r cap dir fs i st rule: pack_loop.induct)
  case (1 r cap dir fs i st)
  show ?case
  proof (cases "i < length fs")
    case True
    then show ?thesis
      using "1.IH" pack_step_totals [of i fs r cap dir st] series_count_le [of i fs]
      by (subst (1 2 3) pack_loop.simps) simp
  next
    case False
    then show ?thesis by (subst (1 2 3) pack_loop.simps) simp
  qed
qed

lemma pack_loop_names:
  "map fst (copied_to (pack_loop r cap dir fs i st))
     = map fst (copied_to st) @ map filename (drop i fs)"
proof (induction r cap dir fs i st rule: pack_loop.induct)
  case (1 r cap dir fs i st)
  show ?case
  proof (cases "i < length fs")
    case True
    have "take (series_count fs i) (drop i fs) @ drop (i + series_count fs i) fs = drop i fs"
      by (metis add.commute append_take_drop_id drop_drop)
    then have "map filename (take (series_count fs i) (drop i fs))
        @ map filename (drop (i + series_count fs i) fs) = map filename (drop i fs)"
      by (metis map_append)
    with True show ?thesis
      using "1.IH" pack_step_names [of r cap dir fs i st]
      by (subst pack_loop.simps) simp
  next
    case False
    then show ?thesis by (subst pack_loop.simps) simp
  qed
qed

lemma final_folder_files:
  "files_in_summary (final_folder st) = files_in_summary st + current_folder_count st"
  by (simp add: final_folder_def files_in_summary_def)

lemma final_folder_keeps [simp]:
  "copied_to (final_folder st) = copied_to st"
  "errors (final_folder st) = errors st"
  "total_copied (final_folder st) = total_copied st"
  "total_skipped (final_folder st) = total_skipped st"
  "disk (final_folder st) = disk st"
  by (simp_all add: final_folder_def)

lemma init_state_fields [simp]:
  "files_in_summary (init_state d) = 0"
  "current_folder_count (init_state d) = 0"
  "current_folder_num (init_state d) = 0"
  "total_copied (init_state d) = 0"
  "total_skipped (init_state d) = 0"
  "errors (init_state d) = []"
  "copied_to (init_state d) = []"
  "disk (init_state d) = d"
  by (simp_all add: init_state_def files_in_summary_def)

lemma pack_files:
  "files_in_summary (pack r cap dir fs d) + length (errors (pack r cap dir fs d)) = length fs"
  using pack_loop_files [of r cap dir fs 0 "init_state d"]
  by (simp add: pack_def final_folder_files)

lemma pack_totals:
  "total_copied (pack r cap dir fs d) + total_skipped (pack r cap dir fs d)
     + length (errors (pack r cap dir fs d)) = length fs"
  using pack_loop_totals [of r cap dir fs 0 "init_state d"]
  by (simp add: pack_def)

lemma pack_names: "map fst (copied_to (pack r cap dir fs d)) = map filename fs"
  using pack_loop_names [of r cap dir fs 0 "init_state d"]
  by (simp add: pack_def)

text \<open>
  C4. Every file of the list gets exactly one target folder, in the order of the list.
  The files counted in the emitted folders are the files copied and the files skipped
  because the destination was there already; a file whose copy raises is counted in no
  folder. So the counts add up to the length of the list less the failed copies, and to
  the length of the list when no copy raises. A file whose destination exists is counted
  and skipped, and the destination is left as it is.
\<close>

theorem folders_count_files_not_failed:
  "map fst (copied_to (pack raises cap dir L d)) = map filename L \<and>
   files_in_summary (pack raises cap dir L d)
     = total_copied (pack raises cap dir L d) + total_skipped (pack raises cap dir L d) \<and>
   files_in_summary (pack raises cap dir L d) + length (errors (pack raises cap dir L d))
     = length L \<and>
   (errors (pack raises cap dir L d) = [] \<longrightarrow>
      files_in_summary (pack raises cap dir L d) = length L) \<and>
   (disk st (tp @ [filename f]) \<noteq> None \<longrightarrow>
      current_folder_count (copy_file raises tp tf st f) = current_folder_count st + 1 \<and>
      total_skipped (copy_file raises tp tf st f) = total_skipped st + 1 \<and>
      total_copied (copy_file raises tp tf st f) = total_copied st \<and>
      disk (copy_file raises tp tf st f) = disk st)"
proof (intro conjI impI)
  show "map fst (copied_to (pack raises cap dir L d)) = map filename L"
    by (rule pack_names)
  show sum: "files_in_summary (pack raises cap dir L d) + length (errors (pack raises cap dir L d))
     = length L"
    by (rule pack_files)
  show "files_in_summary (pack raises cap dir L d)
     = total_copied (pack raises cap dir L d) + total_skipped (pack raises cap dir L d)"
    using pack_files [of raises cap dir L d] pack_totals [of raises cap dir L d] by simp
  show "files_in_summary (pack raises cap dir L d) = length L"
    if "errors (pack raises cap dir L d) = []"
    using sum that by simp
next
  assume ex: "disk st (tp @ [filename f]) \<noteq> None"
  then show "current_folder_count (copy_file raises tp tf st f) = current_folder_count st + 1"
    and "total_skipped (copy_file raises tp tf st f) = total_skipped st + 1"
    and "total_copied (copy_file raises tp tf st f) = total_copied st"
    and "disk (copy_file raises tp tf st f) = disk st"
    by (simp_all add: copy_file_def Let_def)
qed

theorem folders_count_files_not_failed_witness:
  "files_in_summary (pack (\<lambda>src dst. False) MAX_FILES_PER_FOLDER
      (level0_raw ''NTAFIN0001'' ''20251111'')
      [red_file ''IMG_0001_1.tif'', red_file ''IMG_0001_2.tif'']
      [level0_raw ''NTAFIN0001'' ''20251111'' @ [''000'', ''IMG_0001_2.tif''] \<mapsto> ''old''])
     = 2 \<and>
   total_skipped (copy_file (\<lambda>src dst. False) [''000''] ''000''
      (init_state [[''000'', ''IMG_0001_2.tif''] \<mapsto> ''old'']) (red_file ''IMG_0001_2.tif'')) = 1"
proof -
  have e: "errors (pack (\<lambda>src dst. False) MAX_FILES_PER_FOLDER
      (level0_raw ''NTAFIN0001'' ''20251111'')
      [red_file ''IMG_0001_1.tif'', red_file ''IMG_0001_2.tif'']
      [level0_raw ''NTAFIN0001'' ''20251111'' @ [''000'', ''IMG_0001_2.tif''] \<mapsto> ''old'']) = []"
    by code_simp
  have f: "filename (red_file ''IMG_0001_2.tif'') = ''IMG_0001_2.tif''"
    by (simp add: red_file_def file_entry_def)
  show ?thesis
    using e f
      folders_count_files_not_failed [of "\<lambda>src dst. False" MAX_FILES_PER_FOLDER
        "level0_raw ''NTAFIN0001'' ''20251111''"
        "[red_file ''IMG_0001_1.tif'', red_file ''IMG_0001_2.tif'']"
        "[level0_raw ''NTAFIN0001'' ''20251111'' @ [''000'', ''IMG_0001_2.tif''] \<mapsto> ''old'']"
        "init_state [[''000'', ''IMG_0001_2.tif''] \<mapsto> ''old'']" "[''000'']"
        "red_file ''IMG_0001_2.tif''" "''000''"]
    by simp
qed

text \<open>
  A list of one file whose copy raises: no folder is emitted, and the counts add up to 0,
  not to the length of the list.
\<close>

theorem failed_copy_is_not_counted:
  "sorted (map filename [red_file ''IMG_0001_1.tif'']) \<and>
   files_in_summary (pack (\<lambda>src dst. True) MAX_FILES_PER_FOLDER
      (level0_raw ''NTAFIN0001'' ''20251111'') [red_file ''IMG_0001_1.tif''] Map.empty)
     \<noteq> length [red_file ''IMG_0001_1.tif'']"
proof -
  have "files_in_summary (pack (\<lambda>src dst. True) MAX_FILES_PER_FOLDER
      (level0_raw ''NTAFIN0001'' ''20251111'') [red_file ''IMG_0001_1.tif''] Map.empty) = 0"
    by code_simp
  then show ?thesis by simp
qed



section \<open>Series are kept together\<close>













section \<open>Running the packing a second time\<close>
















section \<open>Running the LiDAR transfer a second time\<close>










section \<open>The transfer of all plots\<close>

text \<open>
  C1. With two SET folders assigned to two plots, the transfer packs and copies the
  files of the plot that comes last in the order of the plot names only: the summaries
  hold that plot alone, and no file of the other plot reaches the destination.
\<close>

theorem only_last_plot_is_copied:
  "\<not> isl (transfer_plots (\<lambda>src dst. False) ''20251111'' two_plots Map.empty) \<and>
   fst (projr (transfer_plots (\<lambda>src dst. False) ''20251111'' two_plots Map.empty))
     = [(''NTAFIN0002'', \<lparr>folders = [(''000'', 1)], plot_copied = 1, plot_skipped = 0\<rparr>)] \<and>
   copied_to (snd (projr (transfer_plots (\<lambda>src dst. False) ''20251111'' two_plots Map.empty)))
     = [(''IMG_0002_1.tif'', ''000'')] \<and>
   disk (snd (projr (transfer_plots (\<lambda>src dst. False) ''20251111'' two_plots Map.empty)))
     (level0_raw ''NTAFIN0002'' ''20251111'' @ [''000'', ''IMG_0002_1.tif''])
     = Some ''/red/0001SET/000/IMG_0002_1.tif'' \<and>
   disk (snd (projr (transfer_plots (\<lambda>src dst. False) ''20251111'' two_plots Map.empty)))
     (level0_raw ''NTAFIN0001'' ''20251111'' @ [''000'', ''IMG_0001_1.tif'']) = None"
  by code_simp

section \<open>The order of the file names\<close>


















end
